theory Spec2Isabelle
  imports Complex_Main
begin

section \<open>World generation of the flight simulator: data model\<close>

text \<open>
  The scene assembly (\<open>setupScene\<close>) works on three-component vectors and on entities that
  carry a position, a non-uniform scale and an orientation. JavaScript numbers are modelled
  as reals; the loop counters of the tiling loop take integer values only and are modelled
  as \<open>int\<close>.
\<close>

record vec3 =
  vx :: real
  vy :: real
  vz :: real

text \<open>\<open>Vector3.set(x, y, z)\<close>: all three components are overwritten at once.\<close>

definition vec3_set :: "real \<Rightarrow> real \<Rightarrow> real \<Rightarrow> vec3 \<Rightarrow> vec3" where
  "vec3_set a b c v = v\<lparr>vx := a, vy := b, vz := c\<rparr>"

text \<open>
  An entity of the scene graph. The orientation is always assigned through
  \<open>quaternion.setFromAxisAngle(UP, angle)\<close>; the field \<open>rotation\<close> holds the angle handed
  to that call, that is, the rotation about the vertical axis.
\<close>

record entity =
  position :: vec3
  scale :: vec3
  rotation :: real

type_synonym scene = "entity list"

text \<open>\<open>this.scene.add(e)\<close>: the scene keeps its entities in the order they were added.\<close>

definition scene_add :: "scene \<Rightarrow> entity \<Rightarrow> scene" where
  "scene_add sc e = sc @ [e]"

section \<open>Tiling the map\<close>

text \<open>
  The body of the tiling loop. \<open>TERRAIN_MODEL_SIZE\<close> and \<open>TERRAIN_SCALE\<close> are constants of
  \<open>defs.ts\<close>, and \<open>new SimpleEntity(model, ...)\<close> is a constructor of another file: the two
  constants and the freshly constructed entity \<open>map0\<close> are parameters here. The body assigns
  \<open>position.x\<close>, \<open>position.z\<close>, \<open>scale.x\<close> and \<open>scale.z\<close>, in this order, and adds the
  entity to the scene.
\<close>

definition place_tile :: "real \<Rightarrow> real \<Rightarrow> entity \<Rightarrow> int \<Rightarrow> int \<Rightarrow> entity" where
  "place_tile TERRAIN_MODEL_SIZE TERRAIN_SCALE map0 x z =
     (let m1 = map0\<lparr>position := (position map0)\<lparr>vx := of_int x * TERRAIN_MODEL_SIZE * TERRAIN_SCALE\<rparr>\<rparr>;
          m2 = m1\<lparr>position := (position m1)\<lparr>vz := of_int z * TERRAIN_MODEL_SIZE * TERRAIN_SCALE\<rparr>\<rparr>;
          m3 = m2\<lparr>scale := (scale m2)\<lparr>vx := TERRAIN_SCALE * (if \<bar>x\<bar> mod 2 = 0 then 1 else - 1)\<rparr>\<rparr>;
          m4 = m3\<lparr>scale := (scale m3)\<lparr>vz := TERRAIN_SCALE * (if \<bar>z\<bar> mod 2 = 0 then 1 else - 1)\<rparr>\<rparr>
      in m4)"

text \<open>\<open>for (let z = -2; z <= 2; z++)\<close>, the inner loop, entered with \<open>z = -2\<close>.\<close>

function tile_loop_z :: "real \<Rightarrow> real \<Rightarrow> entity \<Rightarrow> int \<Rightarrow> int \<Rightarrow> scene \<Rightarrow> scene" where
  "tile_loop_z TERRAIN_MODEL_SIZE TERRAIN_SCALE map0 x z sc =
     (if z \<le> 2
      then tile_loop_z TERRAIN_MODEL_SIZE TERRAIN_SCALE map0 x (z + 1)
             (scene_add sc (place_tile TERRAIN_MODEL_SIZE TERRAIN_SCALE map0 x z))
      else sc)"
  by pat_completeness auto
termination
  by (relation "measure (\<lambda>(ms, ts, m, x, z, sc). nat (3 - z))") auto

text \<open>\<open>for (let x = -2; x <= 2; x++)\<close>, the outer loop, entered with \<open>x = -2\<close>.\<close>

function tile_loop_x :: "real \<Rightarrow> real \<Rightarrow> entity \<Rightarrow> int \<Rightarrow> scene \<Rightarrow> scene" where
  "tile_loop_x TERRAIN_MODEL_SIZE TERRAIN_SCALE map0 x sc =
     (if x \<le> 2
      then tile_loop_x TERRAIN_MODEL_SIZE TERRAIN_SCALE map0 (x + 1)
             (tile_loop_z TERRAIN_MODEL_SIZE TERRAIN_SCALE map0 x (- 2) sc)
      else sc)"
  by pat_completeness auto
termination
  by (relation "measure (\<lambda>(ms, ts, m, x, sc). nat (3 - x))") auto

declare tile_loop_z.simps [simp del] tile_loop_x.simps [simp del]

definition tile_terrain :: "real \<Rightarrow> real \<Rightarrow> entity \<Rightarrow> scene \<Rightarrow> scene" where
  "tile_terrain TERRAIN_MODEL_SIZE TERRAIN_SCALE map0 sc =
     tile_loop_x TERRAIN_MODEL_SIZE TERRAIN_SCALE map0 (- 2) sc"

section \<open>The random number source\<close>

text \<open>
  \<open>Math.random()\<close> is a global source of numbers in the half-open interval from 0 to 1.
  It is modelled as an explicit state: the infinite sequence of numbers the source will
  deliver, and a cursor counting the draws made so far. A draw returns the number under the
  cursor and advances the cursor by one.
\<close>

record rng =
  stream :: "nat \<Rightarrow> real"
  cursor :: nat

definition Math_random :: "rng \<Rightarrow> real \<times> rng" where
  "Math_random g = (stream g (cursor g), g\<lparr>cursor := Suc (cursor g)\<rparr>)"

text \<open>The contract of \<open>Math.random()\<close>: every number delivered is at least 0 and below 1.\<close>

definition unit_draws :: "rng \<Rightarrow> bool" where
  "unit_draws g = (\<forall>n. 0 \<le> stream g n \<and> stream g n < 1)"

section \<open>Scattering hills and mountains\<close>

text \<open>A flat mesh of the loaded map model: its name and its geometry.\<close>

record 'g mesh =
  name :: string
  geometry :: 'g

text \<open>The state the callback works on: the scene and the random number source.\<close>

record world =
  entities :: scene
  random :: rng

text \<open>
  What the callback uses from other files, taken as parameters: the two palette category
  names, the constructor \<open>new StaticSceneryEntity(model)\<close> (given the model's identifier)
  and the method \<open>randomPosOver(mesh, position, spread)\<close>. The method writes a position into
  its second argument and draws from \<open>Math.random\<close>: here it receives the mesh, the position
  object as it stands, the spread and the random source, and returns the position written
  together with the number of draws it made, or \<open>None\<close> when it does not return.
\<close>

record 'g externals =
  TERRAIN_GRASS :: string
  TERRAIN_BARE :: string
  StaticSceneryEntity :: "string \<Rightarrow> entity"
  randomPosOver :: "'g mesh \<Rightarrow> vec3 \<Rightarrow> real \<Rightarrow> rng \<Rightarrow> (vec3 \<times> nat) option"

definition skip_draws :: "nat \<Rightarrow> rng \<Rightarrow> rng" where
  "skip_draws k g = g\<lparr>cursor := cursor g + k\<rparr>"

text \<open>
  The scale and rotation assignment of a hill: \<open>scale.set\<close> with three draws, evaluated left
  to right, then \<open>quaternion.setFromAxisAngle(UP, ...)\<close> with a fourth draw.
\<close>

definition hill_transform :: "entity \<Rightarrow> rng \<Rightarrow> entity \<times> rng" where
  "hill_transform hill g0 =
     (let (r1, g1) = Math_random g0;
          (r2, g2) = Math_random g1;
          (r3, g3) = Math_random g2;
          hill1 = hill\<lparr>scale := vec3_set (0.8 + r1 / 5.0) (0.5 + r2 / 2.0) (0.8 + r3 / 5.0) (scale hill)\<rparr>;
          (r4, g4) = Math_random g3;
          hill2 = hill1\<lparr>rotation := pi / 4 + (r4 - 0.5) * pi / 4\<rparr>
      in (hill2, g4))"

text \<open>
  The scale and rotation assignment of a mountain: the three scale components are assigned
  one after the other, each with its own draw, then the rotation with a fourth draw.
\<close>

definition mountain_transform :: "entity \<Rightarrow> rng \<Rightarrow> entity \<times> rng" where
  "mountain_transform mountain g0 =
     (let (r1, g1) = Math_random g0;
          mountain1 = mountain\<lparr>scale := (scale mountain)\<lparr>vx := 0.8 + r1 / 5.0\<rparr>\<rparr>;
          (r2, g2) = Math_random g1;
          mountain2 = mountain1\<lparr>scale := (scale mountain1)\<lparr>vy := 0.5 + r2 / 2.0\<rparr>\<rparr>;
          (r3, g3) = Math_random g2;
          mountain3 = mountain2\<lparr>scale := (scale mountain2)\<lparr>vz := 0.8 + r3 / 5.0\<rparr>\<rparr>;
          (r4, g4) = Math_random g3;
          mountain4 = mountain3\<lparr>rotation := pi / 4 + (r4 - 0.5) * pi / 4\<rparr>
      in (mountain4, g4))"

text \<open>One iteration of the hill loop: construct, position on the grass, transform, add.\<close>

definition place_hill :: "'g externals \<Rightarrow> 'g mesh \<Rightarrow> world \<Rightarrow> world option" where
  "place_hill E grass w =
     (let hill = StaticSceneryEntity E ''lib:hill'' in
      case randomPosOver E grass (position hill) 20000 (random w) of
        None \<Rightarrow> None
      | Some (p, k) \<Rightarrow>
          (let (hill', g) = hill_transform (hill\<lparr>position := p\<rparr>) (skip_draws k (random w))
           in Some \<lparr>entities = scene_add (entities w) hill', random = g\<rparr>))"

text \<open>One iteration of the mountain loop.\<close>

definition place_mountain :: "'g externals \<Rightarrow> 'g mesh \<Rightarrow> world \<Rightarrow> world option" where
  "place_mountain E bare w =
     (let mountain = StaticSceneryEntity E ''lib:mountain'' in
      case randomPosOver E bare (position mountain) 20000 (random w) of
        None \<Rightarrow> None
      | Some (p, k) \<Rightarrow>
          (let (mountain', g) = mountain_transform (mountain\<lparr>position := p\<rparr>) (skip_draws k (random w))
           in Some \<lparr>entities = scene_add (entities w) mountain', random = g\<rparr>))"

text \<open>\<open>for (let i = 0; i < 30; i++)\<close>, entered with \<open>i = 0\<close>.\<close>

function hill_loop :: "'g externals \<Rightarrow> 'g mesh \<Rightarrow> nat \<Rightarrow> world \<Rightarrow> world option" where
  "hill_loop E grass i w =
     (if i < 30
      then (case place_hill E grass w of
              None \<Rightarrow> None
            | Some w' \<Rightarrow> hill_loop E grass (i + 1) w')
      else Some w)"
  by pat_completeness auto
termination
  by (relation "measure (\<lambda>(E, grass, i, w). 30 - i)") auto

text \<open>\<open>for (let i = 0; i < 20; i++)\<close>, entered with \<open>i = 0\<close>.\<close>

function mountain_loop :: "'g externals \<Rightarrow> 'g mesh \<Rightarrow> nat \<Rightarrow> world \<Rightarrow> world option" where
  "mountain_loop E bare i w =
     (if i < 20
      then (case place_mountain E bare w of
              None \<Rightarrow> None
            | Some w' \<Rightarrow> mountain_loop E bare (i + 1) w')
      else Some w)"
  by pat_completeness auto
termination
  by (relation "measure (\<lambda>(E, bare, i, w). 20 - i)") auto

declare hill_loop.simps [simp del] mountain_loop.simps [simp del]

datatype error = PreconditionViolation

text \<open>
  Modelled from the spec: the helper \<open>assertIsDefined\<close> is defined in another file. A lookup
  of a missing surface region is a fatal precondition violation, neither retried nor
  recovered: the helper raises on \<open>undefined\<close> and returns its argument otherwise.
\<close>

definition assertIsDefined :: "'a option \<Rightarrow> error + 'a" where
  "assertIsDefined v = (case v of None \<Rightarrow> Inl PreconditionViolation | Some a \<Rightarrow> Inr a)"

text \<open>
  How the callback ends: it runs to its end, or an exception leaves it. Either way the
  world is as the callback left it, since the scene and the random source are mutated in
  place.
\<close>

datatype outcome = Completed world | Raised error world

fun world_of :: "outcome \<Rightarrow> world" where
  "world_of (Completed w) = w"
| "world_of (Raised e w) = w"

text \<open>
  The callback of \<open>getModel('assets/map.gltf', ...)\<close>, given the flat meshes of the model's
  first level of detail: look the grass mesh up, assert it, scatter 30 hills; look the bare
  mesh up, assert it, scatter 20 mountains. \<open>None\<close> when \<open>randomPosOver\<close> does not return.
\<close>

definition on_map_loaded :: "'g externals \<Rightarrow> 'g mesh list \<Rightarrow> world \<Rightarrow> outcome option" where
  "on_map_loaded E flats w =
     (case assertIsDefined (find (\<lambda>mesh. name mesh = TERRAIN_GRASS E) flats) of
        Inl e \<Rightarrow> Some (Raised e w)
      | Inr grass \<Rightarrow>
          (case hill_loop E grass 0 w of
             None \<Rightarrow> None
           | Some w1 \<Rightarrow>
               (case assertIsDefined (find (\<lambda>mesh. name mesh = TERRAIN_BARE E) flats) of
                  Inl e \<Rightarrow> Some (Raised e w1)
                | Inr bare \<Rightarrow>
                    (case mountain_loop E bare 0 w1 of
                       None \<Rightarrow> None
                     | Some w2 \<Rightarrow> Some (Completed w2)))))"

subsection \<open>What a scatter pass leaves behind\<close>

text \<open>
  The transform the scatter loops give an entity, as a function of four consecutive draws
  of the sequence \<open>s\<close>, starting at draw \<open>n\<close>: X and Z scale \<open>0.8 + r / 5\<close>, Y scale
  \<open>0.5 + r / 2\<close>, rotation \<open>pi / 4 + (r - 0.5) * pi / 4\<close>.
\<close>

definition scatter_transformed :: "(nat \<Rightarrow> real) \<Rightarrow> nat \<Rightarrow> entity \<Rightarrow> bool" where
  "scatter_transformed s n e \<longleftrightarrow>
     vx (scale e) = 0.8 + s n / 5 \<and>
     vy (scale e) = 0.5 + s (n + 1) / 2 \<and>
     vz (scale e) = 0.8 + s (n + 2) / 5 \<and>
     rotation e = pi / 4 + (s (n + 3) - 0.5) * pi / 4"

text \<open>
  An entity scattered onto the mesh \<open>m\<close>: its position is one that \<open>randomPosOver\<close> returned
  for \<open>m\<close> with spread 20000, and its scale and rotation come from four consecutive draws.
\<close>

definition placed_by :: "'g externals \<Rightarrow> 'g mesh \<Rightarrow> (nat \<Rightarrow> real) \<Rightarrow> entity \<Rightarrow> bool" where
  "placed_by E m s e \<longleftrightarrow>
     (\<exists>p0 g k. stream g = s \<and> randomPosOver E m p0 20000 g = Some (position e, k)) \<and>
     (\<exists>n. scatter_transformed s n e)"

text \<open>
  The surface covers every point the sampler can query: \<open>randomPosOver\<close> returns for the
  mesh \<open>m\<close> and spread 20000, wherever the cursor stands in the sequence \<open>s\<close>.
\<close>

definition sampler_returns :: "'g externals \<Rightarrow> 'g mesh \<Rightarrow> (nat \<Rightarrow> real) \<Rightarrow> bool" where
  "sampler_returns E m s \<longleftrightarrow> (\<forall>p g. stream g = s \<longrightarrow> randomPosOver E m p 20000 g \<noteq> None)"

subsection \<open>A sample environment\<close>

text \<open>
  A concrete environment to run the callback in: entities are constructed at the origin
  with unit scale, the sampler spreads the position with two draws and always returns, the
  map model has a grass mesh and a bare mesh, and every draw delivers one half.
\<close>

definition sample_entity :: entity where
  "sample_entity =
     \<lparr>position = \<lparr>vx = 0, vy = 0, vz = 0\<rparr>, scale = \<lparr>vx = 1, vy = 1, vz = 1\<rparr>, rotation = 0\<rparr>"

definition sample_externals :: "unit externals" where
  "sample_externals =
     \<lparr>TERRAIN_GRASS = ''TERRAIN_GRASS'', TERRAIN_BARE = ''TERRAIN_BARE'',
      StaticSceneryEntity = (\<lambda>m. sample_entity),
      randomPosOver = (\<lambda>m p spread g.
         Some (p\<lparr>vx := (stream g (cursor g) - 0.5) * spread,
                 vz := (stream g (cursor g + 1) - 0.5) * spread\<rparr>, 2))\<rparr>"

definition sample_grass :: "unit mesh" where
  "sample_grass = \<lparr>name = ''TERRAIN_GRASS'', geometry = ()\<rparr>"

definition sample_bare :: "unit mesh" where
  "sample_bare = \<lparr>name = ''TERRAIN_BARE'', geometry = ()\<rparr>"

definition sample_world :: world where
  "sample_world = \<lparr>entities = [], random = \<lparr>stream = (\<lambda>n. 1 / 2), cursor = 0\<rparr>\<rparr>"

section \<open>Scenery fields\<close>

text \<open>
  The settings of a scenery field, as \<open>setupScene\<close> writes them: the number of tiles along
  each axis, the subdivisions of a tile, the length of a tile, and the list of variations
  a cell can hold.
\<close>

record CellVariation =
  probability :: real
  model :: string
  jitter :: real
  randomRotation :: bool

record SceneryFieldSettings =
  tilesInField :: nat
  cellsInTile :: nat
  tileLength :: real
  cellVariations :: "CellVariation list"

text \<open>
  The settings both fields are created with. The source shows the first two variations and
  leaves the other crop variations out; they are the parameter \<open>others\<close>.
\<close>

definition fieldOptions :: "CellVariation list \<Rightarrow> SceneryFieldSettings" where
  "fieldOptions others =
     \<lparr>tilesInField = 7,
      cellsInTile = 2,
      tileLength = 2500.0,
      cellVariations =
        [\<lparr>probability = 0.4, model = ''assets/farm01.gltf'', jitter = 0.9, randomRotation = True\<rparr>,
         \<lparr>probability = 0.25, model = ''lib:cropGreen'', jitter = 1.2, randomRotation = False\<rparr>]
        @ others\<rparr>"

text \<open>What the populator emits: the model identifier of the variation, and the placement.\<close>

record PlacedInstance =
  instanceModel :: string
  placement :: entity

text \<open>A cell of the field: the indices of its tile, then its indices inside the tile.\<close>

type_synonym cell = "(nat \<times> nat) \<times> (nat \<times> nat)"

text \<open>
  Modelled from the spec: the class \<open>SceneryField\<close> (\<open>sceneryField.ts\<close>) is not among the
  sources. The field is subdivided into \<open>tilesInField \<times> tilesInField\<close> tiles, each into
  \<open>cellsInTile \<times> cellsInTile\<close> cells, and the populator enumerates every cell.
\<close>

definition fieldCells :: "SceneryFieldSettings \<Rightarrow> cell list" where
  "fieldCells cfg =
     List.product
       (List.product [0 ..< tilesInField cfg] [0 ..< tilesInField cfg])
       (List.product [0 ..< cellsInTile cfg] [0 ..< cellsInTile cfg])"

text \<open>Modelled from the spec: \<open>cellSize = tileLength / cellsInTile\<close>.\<close>

definition cellSize :: "SceneryFieldSettings \<Rightarrow> real" where
  "cellSize cfg = tileLength cfg / real (cellsInTile cfg)"

text \<open>
  Modelled from the spec: the walk over \<open>cellVariations\<close> in declaration order, accumulating
  probability mass. The first variation whose cumulative boundary exceeds \<open>r\<close> is selected;
  the result is its index in the list, and \<open>None\<close> when \<open>r\<close> is past the end of all
  intervals. The walk starts with mass 0 at index 0.
\<close>

fun selectVariation :: "real \<Rightarrow> real \<Rightarrow> nat \<Rightarrow> CellVariation list \<Rightarrow> nat option" where
  "selectVariation r acc i [] = None"
| "selectVariation r acc i (v # vs) =
     (if r < acc + probability v then Some i
      else selectVariation r (acc + probability v) (Suc i) vs)"

text \<open>
  Modelled from the spec: what the populator does for one cell. It draws \<open>r\<close> and selects
  a variation; with none selected the cell stays empty. Otherwise it takes the centre of
  the cell, draws one offset per axis uniformly from \<open>- jitter * cellSize / 2\<close> to
  \<open>jitter * cellSize / 2\<close>, draws a rotation from 0 to \<open>2 * pi\<close> when \<open>randomRotation\<close> is set,
  and emits an instance of the variation's model. The spec leaves open how the centre of a
  cell is computed from its indices, and what height, scale and default orientation an
  instance has: the function \<open>centre\<close> and the entity \<open>blank\<close> are parameters.
\<close>

definition populateCell ::
  "SceneryFieldSettings \<Rightarrow> (cell \<Rightarrow> real \<times> real) \<Rightarrow> entity \<Rightarrow> cell \<Rightarrow> rng \<Rightarrow> PlacedInstance option \<times> rng"
where
  "populateCell cfg centre blank c g0 =
     (let (r, g1) = Math_random g0 in
      case selectVariation r 0 0 (cellVariations cfg) of
        None \<Rightarrow> (None, g1)
      | Some i \<Rightarrow>
          (let v = cellVariations cfg ! i;
               (cx, cz) = centre c;
               (ux, g2) = Math_random g1;
               (uz, g3) = Math_random g2;
               ox = (ux - 1 / 2) * (jitter v * cellSize cfg);
               oz = (uz - 1 / 2) * (jitter v * cellSize cfg);
               (rot, g4) = (if randomRotation v
                            then (let (u, g) = Math_random g3 in (2 * pi * u, g))
                            else (rotation blank, g3));
               e = blank\<lparr>position := (position blank)\<lparr>vx := cx + ox, vz := cz + oz\<rparr>,
                         rotation := rot\<rparr>
           in (Some \<lparr>instanceModel = model v, placement = e\<rparr>, g4)))"

text \<open>Modelled from the spec: the cells are populated one after the other, on one stream.\<close>

fun populateCells ::
  "SceneryFieldSettings \<Rightarrow> (cell \<Rightarrow> real \<times> real) \<Rightarrow> entity \<Rightarrow> cell list \<Rightarrow> rng \<Rightarrow> PlacedInstance list \<times> rng"
where
  "populateCells cfg centre blank [] g = ([], g)"
| "populateCells cfg centre blank (c # cs) g =
     (let (inst, g1) = populateCell cfg centre blank c g;
          (insts, g2) = populateCells cfg centre blank cs g1
      in (case inst of None \<Rightarrow> insts | Some i \<Rightarrow> i # insts, g2))"

definition populateField ::
  "SceneryFieldSettings \<Rightarrow> (cell \<Rightarrow> real \<times> real) \<Rightarrow> entity \<Rightarrow> rng \<Rightarrow> PlacedInstance list \<times> rng"
where
  "populateField cfg centre blank g = populateCells cfg centre blank (fieldCells cfg) g"

text \<open>The probability mass of a list of variations.\<close>

definition mass :: "CellVariation list \<Rightarrow> real" where
  "mass vs = sum_list (map probability vs)"

section \<open>The surface sampler\<close>






text \<open>The number the next draw will deliver.\<close>

definition next_draw :: "rng \<Rightarrow> real" where
  "next_draw g = stream g (cursor g)"

subsection \<open>Sample fields and a sample region\<close>

text \<open>
  The shipped settings with no further variations; a field whose single variation has
  probability 1; cell centres on a grid of cell size 1250; a source that always delivers
  one half, and one that always delivers 0; a region with three surfaces
  stacked at heights 1, 5 and 3 everywhere.
\<close>

definition sample_settings :: SceneryFieldSettings where
  "sample_settings = fieldOptions []"

definition sure_settings :: SceneryFieldSettings where
  "sure_settings =
     \<lparr>tilesInField = 7, cellsInTile = 2, tileLength = 2500.0,
      cellVariations =
        [\<lparr>probability = 1.0, model = ''lib:cropGreen'', jitter = 1.2, randomRotation = False\<rparr>]\<rparr>"

definition sample_centre :: "cell \<Rightarrow> real \<times> real" where
  "sample_centre c = (case c of ((tx, tz), (cx, cz)) \<Rightarrow>
     ((real (tx * 2 + cx) + 1 / 2) * 1250, (real (tz * 2 + cz) + 1 / 2) * 1250))"

definition sample_rng :: rng where
  "sample_rng = \<lparr>stream = (\<lambda>n. 1 / 2), cursor = 0\<rparr>"



section \<open>Properties of the tiling loop\<close>

text \<open>The two loops unrolled: five columns of five tiles.\<close>

lemma tile_loop_z_unroll:
  "tile_loop_z ms ts m0 x (- 2) sc =
     sc @ [place_tile ms ts m0 x (- 2), place_tile ms ts m0 x (- 1), place_tile ms ts m0 x 0,
           place_tile ms ts m0 x 1, place_tile ms ts m0 x 2]"
  by (simp add: tile_loop_z.simps scene_add_def)

lemma tile_terrain_unroll:
  "tile_terrain ms ts m0 sc = sc @ concat (map (\<lambda>x. map (place_tile ms ts m0 x) [- 2, - 1, 0, 1, 2]) [- 2, - 1, 0, 1, 2])"
  by (simp add: tile_terrain_def tile_loop_x.simps tile_loop_z_unroll)

lemma place_tile_fields:
  "vx (position (place_tile ms ts m0 x z)) = of_int x * ms * ts"
  "vz (position (place_tile ms ts m0 x z)) = of_int z * ms * ts"
  "vx (scale (place_tile ms ts m0 x z)) = (if odd \<bar>x\<bar> then - ts else ts)"
  "vz (scale (place_tile ms ts m0 x z)) = (if odd \<bar>z\<bar> then - ts else ts)"
  "vy (position (place_tile ms ts m0 x z)) = vy (position m0)"
  "vy (scale (place_tile ms ts m0 x z)) = vy (scale m0)"
  "rotation (place_tile ms ts m0 x z) = rotation m0"
  by (simp_all add: place_tile_def Let_def flip: even_iff_mod_2_eq_zero)

lemma grid_list: "List.product [- 2 .. 2] [- 2 .. 2 :: int] =
    concat (map (\<lambda>x. map (Pair x) [- 2, - 1, 0, 1, 2]) [- 2, - 1, 0, 1, 2])"
  by (simp add: upto_rec1)

text \<open>
  Claim C9. The tiling loop adds exactly 25 tiles to the scene, one for each grid coordinate
  \<open>(x, z)\<close> with \<open>-2 \<le> x \<le> 2\<close> and \<open>-2 \<le> z \<le> 2\<close>, in the order of the nested loops. The
  tile of \<open>(x, z)\<close> stands at \<open>(x * TERRAIN_MODEL_SIZE * TERRAIN_SCALE,
  z * TERRAIN_MODEL_SIZE * TERRAIN_SCALE)\<close>; its X scale is \<open>- TERRAIN_SCALE\<close> when \<open>\<bar>x\<bar>\<close> is
  odd and \<open>TERRAIN_SCALE\<close> otherwise, and likewise its Z scale for \<open>\<bar>z\<bar>\<close>. With a positive
  \<open>TERRAIN_SCALE\<close> the scale is negative, the tile mirrored, exactly when the coordinate's
  absolute value is odd.
\<close>

theorem terrain_tiling:
  "tile_terrain ms ts m0 sc =
      sc @ map (\<lambda>(x, z). place_tile ms ts m0 x z) (List.product [- 2 .. 2] [- 2 .. 2]) \<and>
   length (tile_terrain ms ts m0 sc) = length sc + 25 \<and>
   distinct (List.product [- 2 .. 2] [- 2 .. 2 :: int]) \<and>
   set (List.product [- 2 .. 2] [- 2 .. 2 :: int]) = {- 2 .. 2} \<times> {- 2 .. 2} \<and>
   (\<forall>x z. vx (position (place_tile ms ts m0 x z)) = of_int x * ms * ts \<and>
          vz (position (place_tile ms ts m0 x z)) = of_int z * ms * ts \<and>
          vx (scale (place_tile ms ts m0 x z)) = (if odd \<bar>x\<bar> then - ts else ts) \<and>
          vz (scale (place_tile ms ts m0 x z)) = (if odd \<bar>z\<bar> then - ts else ts) \<and>
          (0 < ts \<longrightarrow> (vx (scale (place_tile ms ts m0 x z)) < 0 \<longleftrightarrow> odd \<bar>x\<bar>) \<and>
                      (vz (scale (place_tile ms ts m0 x z)) < 0 \<longleftrightarrow> odd \<bar>z\<bar>)))"
proof -
  have a: "tile_terrain ms ts m0 sc =
      sc @ map (\<lambda>(x, z). place_tile ms ts m0 x z) (List.product [- 2 .. 2] [- 2 .. 2])"
    unfolding grid_list tile_terrain_unroll by simp
  have b: "length (tile_terrain ms ts m0 sc) = length sc + 25"
    unfolding a by simp
  have c: "distinct (List.product [- 2 .. 2] [- 2 .. 2 :: int])"
    by (rule distinct_product) simp_all
  have d: "set (List.product [- 2 .. 2] [- 2 .. 2 :: int]) = {- 2 .. 2} \<times> {- 2 .. 2}"
    by (simp only: set_product set_upto)
  show ?thesis
    by (intro conjI a b c d allI) (simp_all add: place_tile_fields)
qed

text \<open>The tiling on a terrain of model size 100 and scale 100, and its tile at \<open>(-1, 2)\<close>.\<close>

theorem terrain_tiling_witness:
  "tile_terrain 100 100 sample_entity [] =
     map (\<lambda>(x, z). place_tile 100 100 sample_entity x z) (List.product [- 2 .. 2] [- 2 .. 2]) \<and>
   length (tile_terrain 100 100 sample_entity []) = 25 \<and>
   (0 :: real) < 100 \<and>
   vx (position (place_tile 100 100 sample_entity (- 1) 2)) = - 10000 \<and>
   vz (position (place_tile 100 100 sample_entity (- 1) 2)) = 20000 \<and>
   vx (scale (place_tile 100 100 sample_entity (- 1) 2)) < 0 \<and> odd \<bar>- 1 :: int\<bar> \<and>
   vz (scale (place_tile 100 100 sample_entity (- 1) 2)) = 100 \<and> even \<bar>2 :: int\<bar>"
  using terrain_tiling[of 100 100 sample_entity "[]"]
  by simp

section \<open>Properties of the scatter passes\<close>

text \<open>Both assignments in closed form: four draws, the cursor advanced by four.\<close>

lemma hill_transform_eq:
  "hill_transform h g =
     (h\<lparr>scale := (scale h)\<lparr>vx := 0.8 + stream g (cursor g) / 5,
                            vy := 0.5 + stream g (cursor g + 1) / 2,
                            vz := 0.8 + stream g (cursor g + 2) / 5\<rparr>,
        rotation := pi / 4 + (stream g (cursor g + 3) - 0.5) * pi / 4\<rparr>,
      g\<lparr>cursor := cursor g + 4\<rparr>)"
  by (simp add: hill_transform_def Math_random_def vec3_set_def eval_nat_numeral)

lemma mountain_transform_eq:
  "mountain_transform h g =
     (h\<lparr>scale := (scale h)\<lparr>vx := 0.8 + stream g (cursor g) / 5,
                            vy := 0.5 + stream g (cursor g + 1) / 2,
                            vz := 0.8 + stream g (cursor g + 2) / 5\<rparr>,
        rotation := pi / 4 + (stream g (cursor g + 3) - 0.5) * pi / 4\<rparr>,
      g\<lparr>cursor := cursor g + 4\<rparr>)"
  by (simp add: mountain_transform_def Math_random_def eval_nat_numeral)

lemma transforms_agree: "mountain_transform = hill_transform"
  by (intro ext) (simp add: hill_transform_eq mountain_transform_eq)

text \<open>What one iteration and what a whole loop leave behind when they return.\<close>

lemma place_hill_Some:
  assumes "place_hill E grass w = Some w'"
  shows "\<exists>h p k. randomPosOver E grass (position (StaticSceneryEntity E ''lib:hill'')) 20000 (random w) = Some (p, k) \<and>
           position h = p \<and>
           scatter_transformed (stream (random w)) (cursor (random w) + k) h \<and>
           entities w' = entities w @ [h] \<and>
           stream (random w') = stream (random w) \<and>
           cursor (random w') = cursor (random w) + k + 4"
  using assms
  by (auto simp: place_hill_def hill_transform_eq skip_draws_def scene_add_def
      scatter_transformed_def Let_def split: option.splits)

lemma place_mountain_Some:
  assumes "place_mountain E bare w = Some w'"
  shows "\<exists>h p k. randomPosOver E bare (position (StaticSceneryEntity E ''lib:mountain'')) 20000 (random w) = Some (p, k) \<and>
           position h = p \<and>
           scatter_transformed (stream (random w)) (cursor (random w) + k) h \<and>
           entities w' = entities w @ [h] \<and>
           stream (random w') = stream (random w) \<and>
           cursor (random w') = cursor (random w) + k + 4"
  using assms
  by (auto simp: place_mountain_def mountain_transform_eq skip_draws_def scene_add_def
      scatter_transformed_def Let_def split: option.splits)

lemma hill_loop_Some:
  "hill_loop E grass i w = Some w' \<Longrightarrow> i \<le> 30 \<Longrightarrow>
     \<exists>hs. entities w' = entities w @ hs \<and> length hs = 30 - i \<and>
          stream (random w') = stream (random w) \<and>
          (\<forall>h \<in> set hs. placed_by E grass (stream (random w)) h)"
proof (induction E grass i w rule: hill_loop.induct)
  case (1 E grass i w)
  show ?case
  proof (cases "i < 30")
    case False
    with "1.prems" show ?thesis by (simp add: hill_loop.simps)
  next
    case True
    with "1.prems" obtain w1 where s: "place_hill E grass w = Some w1"
      and l: "hill_loop E grass (i + 1) w1 = Some w'"
      by (auto simp: hill_loop.simps[of E grass i w] split: option.splits)
    from place_hill_Some[OF s] obtain h p k where
      h: "randomPosOver E grass (position (StaticSceneryEntity E ''lib:hill'')) 20000 (random w) = Some (p, k)"
         "position h = p" "scatter_transformed (stream (random w)) (cursor (random w) + k) h"
         "entities w1 = entities w @ [h]" "stream (random w1) = stream (random w)"
      by blast
    have ph: "placed_by E grass (stream (random w)) h"
      unfolding placed_by_def using h(1,2,3) by blast
    from "1.IH"[OF True s l] True obtain hs where
      hs: "entities w' = entities w1 @ hs" "length hs = 30 - (i + 1)"
          "stream (random w') = stream (random w1)"
          "\<forall>h \<in> set hs. placed_by E grass (stream (random w1)) h"
      by auto
    show ?thesis
      apply (rule exI[of _ "h # hs"])
      using hs h(4,5) ph True by auto
  qed
qed

lemma mountain_loop_Some:
  "mountain_loop E bare i w = Some w' \<Longrightarrow> i \<le> 20 \<Longrightarrow>
     \<exists>hs. entities w' = entities w @ hs \<and> length hs = 20 - i \<and>
          stream (random w') = stream (random w) \<and>
          (\<forall>h \<in> set hs. placed_by E bare (stream (random w)) h)"
proof (induction E bare i w rule: mountain_loop.induct)
  case (1 E bare i w)
  show ?case
  proof (cases "i < 20")
    case False
    with "1.prems" show ?thesis by (simp add: mountain_loop.simps)
  next
    case True
    with "1.prems" obtain w1 where s: "place_mountain E bare w = Some w1"
      and l: "mountain_loop E bare (i + 1) w1 = Some w'"
      by (auto simp: mountain_loop.simps[of E bare i w] split: option.splits)
    from place_mountain_Some[OF s] obtain h p k where
      h: "randomPosOver E bare (position (StaticSceneryEntity E ''lib:mountain'')) 20000 (random w) = Some (p, k)"
         "position h = p" "scatter_transformed (stream (random w)) (cursor (random w) + k) h"
         "entities w1 = entities w @ [h]" "stream (random w1) = stream (random w)"
      by blast
    have ph: "placed_by E bare (stream (random w)) h"
      unfolding placed_by_def using h(1,2,3) by blast
    from "1.IH"[OF True s l] True obtain hs where
      hs: "entities w' = entities w1 @ hs" "length hs = 20 - (i + 1)"
          "stream (random w') = stream (random w1)"
          "\<forall>h \<in> set hs. placed_by E bare (stream (random w1)) h"
      by auto
    show ?thesis
      apply (rule exI[of _ "h # hs"])
      using hs h(4,5) ph True by auto
  qed
qed

text \<open>The loops return when the sampler does.\<close>

lemma place_hill_returns:
  assumes "sampler_returns E grass (stream (random w))"
  shows "\<exists>w'. place_hill E grass w = Some w'"
proof -
  from assms have "randomPosOver E grass (position (StaticSceneryEntity E ''lib:hill'')) 20000 (random w) \<noteq> None"
    unfolding sampler_returns_def by blast
  then obtain p k where "randomPosOver E grass (position (StaticSceneryEntity E ''lib:hill'')) 20000 (random w) = Some (p, k)"
    by auto
  then show ?thesis
    by (simp add: place_hill_def hill_transform_eq Let_def)
qed

lemma place_mountain_returns:
  assumes "sampler_returns E bare (stream (random w))"
  shows "\<exists>w'. place_mountain E bare w = Some w'"
proof -
  from assms have "randomPosOver E bare (position (StaticSceneryEntity E ''lib:mountain'')) 20000 (random w) \<noteq> None"
    unfolding sampler_returns_def by blast
  then obtain p k where "randomPosOver E bare (position (StaticSceneryEntity E ''lib:mountain'')) 20000 (random w) = Some (p, k)"
    by auto
  then show ?thesis
    by (simp add: place_mountain_def mountain_transform_eq Let_def)
qed

lemma hill_loop_returns:
  "sampler_returns E grass (stream (random w)) \<Longrightarrow> \<exists>w'. hill_loop E grass i w = Some w'"
proof (induction E grass i w rule: hill_loop.induct)
  case (1 E grass i w)
  show ?case
  proof (cases "i < 30")
    case False
    then show ?thesis by (simp add: hill_loop.simps)
  next
    case True
    from place_hill_returns[OF "1.prems"] obtain w1 where s: "place_hill E grass w = Some w1" by blast
    from place_hill_Some[OF s] have "stream (random w1) = stream (random w)" by blast
    with "1.IH"[OF True s] "1.prems" obtain w' where "hill_loop E grass (i + 1) w1 = Some w'" by auto
    with s True show ?thesis by (simp add: hill_loop.simps[of E grass i w])
  qed
qed

lemma mountain_loop_returns:
  "sampler_returns E bare (stream (random w)) \<Longrightarrow> \<exists>w'. mountain_loop E bare i w = Some w'"
proof (induction E bare i w rule: mountain_loop.induct)
  case (1 E bare i w)
  show ?case
  proof (cases "i < 20")
    case False
    then show ?thesis by (simp add: mountain_loop.simps)
  next
    case True
    from place_mountain_returns[OF "1.prems"] obtain w1 where s: "place_mountain E bare w = Some w1" by blast
    from place_mountain_Some[OF s] have "stream (random w1) = stream (random w)" by blast
    with "1.IH"[OF True s] "1.prems" obtain w' where "mountain_loop E bare (i + 1) w1 = Some w'" by auto
    with s True show ?thesis by (simp add: mountain_loop.simps[of E bare i w])
  qed
qed

text \<open>The ranges of scale and rotation for draws in the unit interval.\<close>

lemma scatter_transformed_bounds:
  assumes "\<forall>n. 0 \<le> s n \<and> s n < 1" "scatter_transformed s n e"
  shows "0.8 \<le> vx (scale e) \<and> vx (scale e) \<le> 1 \<and> 0.5 \<le> vy (scale e) \<and> vy (scale e) \<le> 1 \<and>
         0.8 \<le> vz (scale e) \<and> vz (scale e) \<le> 1"
proof -
  have "0 \<le> s n" "s n < 1" "0 \<le> s (n + 1)" "s (n + 1) < 1" "0 \<le> s (n + 2)" "s (n + 2) < 1"
    using assms(1) by auto
  with assms(2) show ?thesis unfolding scatter_transformed_def by auto
qed

lemma scatter_transformed_rotation:
  assumes "\<forall>n. 0 \<le> s n \<and> s n < 1" "scatter_transformed s n e"
  shows "\<exists>j. \<bar>j\<bar> \<le> pi / 8 \<and> rotation e = pi / 4 + j" "pi / 8 \<le> rotation e" "rotation e \<le> 3 * pi / 8"
proof -
  define r where "r = s (n + 3)"
  define j where "j = (r - 0.5) * pi / 4"
  have r: "0 \<le> r" "r < 1" using assms(1) by (auto simp: r_def)
  have rot: "rotation e = pi / 4 + j"
    using assms(2) by (simp add: scatter_transformed_def r_def j_def)
  have "\<bar>j\<bar> = \<bar>r - 0.5\<bar> * (pi / 4)"
    by (simp add: j_def abs_mult)
  also have "\<dots> \<le> 0.5 * (pi / 4)"
  proof (rule mult_right_mono)
    show "\<bar>r - 0.5\<bar> \<le> 0.5" using r by (auto simp: abs_if)
    show "0 \<le> pi / 4" by simp
  qed
  finally have j: "\<bar>j\<bar> \<le> pi / 8" by simp
  then have jj: "- (pi / 8) \<le> j" "j \<le> pi / 8" by (simp_all add: abs_le_iff)
  show "\<exists>j. \<bar>j\<bar> \<le> pi / 8 \<and> rotation e = pi / 4 + j"
    using j rot by blast
  show "pi / 8 \<le> rotation e" "rotation e \<le> 3 * pi / 8"
    using jj rot by linarith+
qed

lemma sample_unit_draws: "unit_draws (random sample_world)"
  by (simp add: unit_draws_def sample_world_def)

lemma sample_sampler_returns: "sampler_returns sample_externals m s"
  by (simp add: sampler_returns_def sample_externals_def)

lemma hill_loop_scatter:
  assumes "sampler_returns E grass (stream (random w))"
  shows "\<exists>hills g'. hill_loop E grass 0 w = Some \<lparr>entities = entities w @ hills, random = g'\<rparr> \<and>
           length hills = 30 \<and> stream g' = stream (random w) \<and>
           (\<forall>h \<in> set hills. placed_by E grass (stream (random w)) h)"
proof -
  from hill_loop_returns[OF assms] obtain w' where r: "hill_loop E grass 0 w = Some w'" by blast
  from hill_loop_Some[OF r] obtain hs where
    hs: "entities w' = entities w @ hs" "length hs = 30" "stream (random w') = stream (random w)"
        "\<forall>h \<in> set hs. placed_by E grass (stream (random w)) h"
    by auto
  have "w' = \<lparr>entities = entities w @ hs, random = random w'\<rparr>" using hs(1) by simp
  with r hs show ?thesis by metis
qed

lemma mountain_loop_scatter:
  assumes "sampler_returns E bare (stream (random w))"
  shows "\<exists>ms g'. mountain_loop E bare 0 w = Some \<lparr>entities = entities w @ ms, random = g'\<rparr> \<and>
           length ms = 20 \<and> stream g' = stream (random w) \<and>
           (\<forall>m \<in> set ms. placed_by E bare (stream (random w)) m)"
proof -
  from mountain_loop_returns[OF assms] obtain w' where r: "mountain_loop E bare 0 w = Some w'" by blast
  from mountain_loop_Some[OF r] obtain hs where
    hs: "entities w' = entities w @ hs" "length hs = 20" "stream (random w') = stream (random w)"
        "\<forall>h \<in> set hs. placed_by E bare (stream (random w)) h"
    by auto
  have "w' = \<lparr>entities = entities w @ hs, random = random w'\<rparr>" using hs(1) by simp
  with r hs show ?thesis by metis
qed

lemma placed_by_bounds:
  assumes "\<forall>n. 0 \<le> s n \<and> s n < 1" "placed_by E m s e"
  shows "0.8 \<le> vx (scale e) \<and> vx (scale e) \<le> 1 \<and> 0.5 \<le> vy (scale e) \<and> vy (scale e) \<le> 1 \<and>
         0.8 \<le> vz (scale e) \<and> vz (scale e) \<le> 1"
  using assms scatter_transformed_bounds unfolding placed_by_def by blast

lemma placed_by_rotation:
  assumes "\<forall>n. 0 \<le> s n \<and> s n < 1" "placed_by E m s e"
  shows "(\<exists>j. \<bar>j\<bar> \<le> pi / 8 \<and> rotation e = pi / 4 + j) \<and> pi / 8 \<le> rotation e \<and> rotation e \<le> 3 * pi / 8"
  using assms scatter_transformed_rotation unfolding placed_by_def by blast

text \<open>
  Claim C4. The hill loop scatters with spread 20000. When the sampler returns for the
  grass mesh (the surface covers everything the sampler queries) and the draws lie in the
  unit interval, the loop returns and has added exactly 30 hills, each with Y scale between
  0.5 and 1 and X and Z scale between 0.8 and 1.
\<close>

theorem hills_scatter:
  assumes "unit_draws (random w)"
      and "sampler_returns E grass (stream (random w))"
  shows "\<exists>hills g'. hill_loop E grass 0 w = Some \<lparr>entities = entities w @ hills, random = g'\<rparr> \<and>
           length hills = 30 \<and>
           (\<forall>h \<in> set hills.
              0.5 \<le> vy (scale h) \<and> vy (scale h) \<le> 1 \<and>
              0.8 \<le> vx (scale h) \<and> vx (scale h) \<le> 1 \<and>
              0.8 \<le> vz (scale h) \<and> vz (scale h) \<le> 1)"
proof -
  from hill_loop_scatter[OF assms(2)] obtain hills g' where
    h: "hill_loop E grass 0 w = Some \<lparr>entities = entities w @ hills, random = g'\<rparr>"
       "length hills = 30" "\<forall>h \<in> set hills. placed_by E grass (stream (random w)) h"
    by blast
  from assms(1) have u: "\<forall>n. 0 \<le> stream (random w) n \<and> stream (random w) n < 1"
    by (simp add: unit_draws_def)
  have "\<forall>h \<in> set hills.
              0.5 \<le> vy (scale h) \<and> vy (scale h) \<le> 1 \<and>
              0.8 \<le> vx (scale h) \<and> vx (scale h) \<le> 1 \<and>
              0.8 \<le> vz (scale h) \<and> vz (scale h) \<le> 1"
    using placed_by_bounds[OF u] h(3) by blast
  with h(1,2) show ?thesis by blast
qed

text \<open>The sample environment meets the hypotheses of the hill scatter theorem.\<close>

theorem hills_scatter_witness:
  "unit_draws (random sample_world) \<and>
   sampler_returns sample_externals sample_grass (stream (random sample_world)) \<and>
   (\<exists>hills g'. hill_loop sample_externals sample_grass 0 sample_world =
        Some \<lparr>entities = entities sample_world @ hills, random = g'\<rparr> \<and>
      length hills = 30 \<and>
      (\<forall>h \<in> set hills.
         0.5 \<le> vy (scale h) \<and> vy (scale h) \<le> 1 \<and>
         0.8 \<le> vx (scale h) \<and> vx (scale h) \<le> 1 \<and>
         0.8 \<le> vz (scale h) \<and> vz (scale h) \<le> 1))"
  using hills_scatter[OF sample_unit_draws sample_sampler_returns, where grass = sample_grass]
    sample_unit_draws sample_sampler_returns
  by blast

text \<open>
  Claim C6. When the lookup of the grass mesh finds nothing, the callback raises the
  precondition violation and leaves the world as it found it: no draw was made and no
  entity added. When the grass mesh is there and the lookup of the bare mesh finds nothing,
  the callback raises with the world as the hill loop left it: the mountain pass has made
  no draw and added no entity. Nothing catches the error.
\<close>

theorem missing_surface_is_fatal:
  "(find (\<lambda>mesh. name mesh = TERRAIN_GRASS E) flats = None \<longrightarrow>
      on_map_loaded E flats w = Some (Raised PreconditionViolation w)) \<and>
   (find (\<lambda>mesh. name mesh = TERRAIN_GRASS E) flats = Some grass \<and>
    hill_loop E grass 0 w = Some w1 \<and>
    find (\<lambda>mesh. name mesh = TERRAIN_BARE E) flats = None \<longrightarrow>
      on_map_loaded E flats w = Some (Raised PreconditionViolation w1))"
  by (simp add: on_map_loaded_def assertIsDefined_def)

text \<open>Both cases on the sample environment: a map without grass, a map without bare ground.\<close>

theorem missing_surface_is_fatal_witness:
  "find (\<lambda>mesh. name mesh = TERRAIN_GRASS sample_externals) [sample_bare] = None \<and>
   on_map_loaded sample_externals [sample_bare] sample_world = Some (Raised PreconditionViolation sample_world) \<and>
   (\<exists>w1. find (\<lambda>mesh. name mesh = TERRAIN_GRASS sample_externals) [sample_grass] = Some sample_grass \<and>
         hill_loop sample_externals sample_grass 0 sample_world = Some w1 \<and>
         find (\<lambda>mesh. name mesh = TERRAIN_BARE sample_externals) [sample_grass] = None \<and>
         on_map_loaded sample_externals [sample_grass] sample_world = Some (Raised PreconditionViolation w1))"
proof -
  have a: "find (\<lambda>mesh. name mesh = TERRAIN_GRASS sample_externals) [sample_bare] = None"
    by (simp add: sample_externals_def sample_bare_def)
  have b: "find (\<lambda>mesh. name mesh = TERRAIN_GRASS sample_externals) [sample_grass] = Some sample_grass"
    by (simp add: sample_externals_def sample_grass_def)
  have c: "find (\<lambda>mesh. name mesh = TERRAIN_BARE sample_externals) [sample_grass] = None"
    by (simp add: sample_externals_def sample_grass_def)
  from hill_loop_returns[OF sample_sampler_returns] obtain w1 where
    d: "hill_loop sample_externals sample_grass 0 sample_world = Some w1" by blast
  from missing_surface_is_fatal[where E = sample_externals and flats = "[sample_bare]" and w = sample_world] a
  have e: "on_map_loaded sample_externals [sample_bare] sample_world = Some (Raised PreconditionViolation sample_world)"
    by blast
  from missing_surface_is_fatal[where E = sample_externals and flats = "[sample_grass]" and grass = sample_grass
      and w = sample_world and ?w1.0 = w1] b c d
  have f: "on_map_loaded sample_externals [sample_grass] sample_world = Some (Raised PreconditionViolation w1)"
    by blast
  from a b c d e f show ?thesis by blast
qed

lemma on_map_loaded_Some:
  assumes "on_map_loaded E flats w = Some out"
  shows "\<exists>new. entities (world_of out) = entities w @ new \<and>
           (\<forall>e \<in> set new. \<exists>m. placed_by E m (stream (random w)) e)"
proof (cases "find (\<lambda>mesh. name mesh = TERRAIN_GRASS E) flats")
  case None
  with assms have "out = Raised PreconditionViolation w"
    by (simp add: on_map_loaded_def assertIsDefined_def)
  then show ?thesis by simp
next
  case (Some grass)
  with assms obtain w1 where w1: "hill_loop E grass 0 w = Some w1"
    by (auto simp: on_map_loaded_def assertIsDefined_def split: option.splits)
  from hill_loop_Some[OF w1] obtain hs where
    hs: "entities w1 = entities w @ hs" "stream (random w1) = stream (random w)"
        "\<forall>h \<in> set hs. placed_by E grass (stream (random w)) h"
    by auto
  show ?thesis
  proof (cases "find (\<lambda>mesh. name mesh = TERRAIN_BARE E) flats")
    case None
    with assms Some w1 have "out = Raised PreconditionViolation w1"
      by (simp add: on_map_loaded_def assertIsDefined_def)
    with hs show ?thesis by auto
  next
    case (Some bare)
    with assms \<open>find (\<lambda>mesh. name mesh = TERRAIN_GRASS E) flats = Some grass\<close> w1
    obtain w2 where w2: "mountain_loop E bare 0 w1 = Some w2" "out = Completed w2"
      by (auto simp: on_map_loaded_def assertIsDefined_def split: option.splits)
    from mountain_loop_Some[OF w2(1)] obtain ms where
      ms: "entities w2 = entities w1 @ ms" 
        "\<forall>h \<in> set ms. placed_by E bare (stream (random w1)) h"
      by auto
    show ?thesis
      apply (rule exI[of _ "hs @ ms"])
      using w2(2) ms hs by auto
  qed
qed

lemma on_map_loaded_completes:
  assumes "find (\<lambda>mesh. name mesh = TERRAIN_GRASS E) flats = Some grass"
      and "find (\<lambda>mesh. name mesh = TERRAIN_BARE E) flats = Some bare"
      and "sampler_returns E grass (stream (random w))"
      and "sampler_returns E bare (stream (random w))"
  shows "\<exists>hills ms g'. on_map_loaded E flats w =
            Some (Completed \<lparr>entities = entities w @ hills @ ms, random = g'\<rparr>) \<and>
           length hills = 30 \<and> length ms = 20 \<and>
           (\<forall>h \<in> set hills. placed_by E grass (stream (random w)) h) \<and>
           (\<forall>m \<in> set ms. placed_by E bare (stream (random w)) m)"
proof -
  from hill_loop_scatter[OF assms(3)] obtain hills g1 where
    h: "hill_loop E grass 0 w = Some \<lparr>entities = entities w @ hills, random = g1\<rparr>"
       "length hills = 30" "stream g1 = stream (random w)"
       "\<forall>h \<in> set hills. placed_by E grass (stream (random w)) h"
    by blast
  let ?w1 = "\<lparr>entities = entities w @ hills, random = g1\<rparr>"
  have "sampler_returns E bare (stream (random ?w1))" using assms(4) h(3) by simp
  from mountain_loop_scatter[OF this] obtain ms g2 where
    m: "mountain_loop E bare 0 ?w1 = Some \<lparr>entities = entities ?w1 @ ms, random = g2\<rparr>"
       "length ms = 20"
       "\<forall>m \<in> set ms. placed_by E bare (stream (random ?w1)) m"
    by blast
  have "on_map_loaded E flats w = Some (Completed \<lparr>entities = entities w @ hills @ ms, random = g2\<rparr>)"
    using assms(1,2) h(1) m(1) by (simp add: on_map_loaded_def assertIsDefined_def)
  with h m show ?thesis by auto
qed

text \<open>
  Claim C8. Every hill and every mountain the callback has added, whether it completed or
  raised, has a rotation about the vertical axis of \<open>pi / 4\<close> plus a jitter of magnitude at
  most \<open>pi / 8\<close>; the angle lies between \<open>pi / 8\<close> and \<open>3 * pi / 8\<close>.
\<close>

theorem scatter_rotation_range:
  assumes "unit_draws (random w)"
      and "on_map_loaded E flats w = Some out"
  shows "\<exists>new. entities (world_of out) = entities w @ new \<and>
           (\<forall>e \<in> set new.
              (\<exists>j. \<bar>j\<bar> \<le> pi / 8 \<and> rotation e = pi / 4 + j) \<and>
              pi / 8 \<le> rotation e \<and> rotation e \<le> 3 * pi / 8)"
proof -
  from assms(1) have u: "\<forall>n. 0 \<le> stream (random w) n \<and> stream (random w) n < 1"
    by (simp add: unit_draws_def)
  from on_map_loaded_Some[OF assms(2)] obtain new where
    n: "entities (world_of out) = entities w @ new"
       "\<forall>e \<in> set new. \<exists>m. placed_by E m (stream (random w)) e"
    by blast
  have "\<forall>e \<in> set new.
              (\<exists>j. \<bar>j\<bar> \<le> pi / 8 \<and> rotation e = pi / 4 + j) \<and>
              pi / 8 \<le> rotation e \<and> rotation e \<le> 3 * pi / 8"
    using n(2) placed_by_rotation[OF u] by blast
  with n(1) show ?thesis by blast
qed

lemma sample_finds:
  "find (\<lambda>mesh. name mesh = TERRAIN_GRASS sample_externals) [sample_grass, sample_bare] = Some sample_grass"
  "find (\<lambda>mesh. name mesh = TERRAIN_BARE sample_externals) [sample_grass, sample_bare] = Some sample_bare"
  by (simp_all add: sample_externals_def sample_grass_def sample_bare_def)

text \<open>The sample environment: the callback completes and all 50 entities are in range.\<close>

theorem scatter_rotation_range_witness:
  "unit_draws (random sample_world) \<and>
   (\<exists>out new. on_map_loaded sample_externals [sample_grass, sample_bare] sample_world = Some out \<and>
      entities (world_of out) = entities sample_world @ new \<and> length new = 50 \<and>
      (\<forall>e \<in> set new.
         (\<exists>j. \<bar>j\<bar> \<le> pi / 8 \<and> rotation e = pi / 4 + j) \<and>
         pi / 8 \<le> rotation e \<and> rotation e \<le> 3 * pi / 8))"
proof -
  from on_map_loaded_completes[OF sample_finds sample_sampler_returns sample_sampler_returns, of sample_world]
  obtain hills ms g' where
    c: "on_map_loaded sample_externals [sample_grass, sample_bare] sample_world =
          Some (Completed \<lparr>entities = entities sample_world @ hills @ ms, random = g'\<rparr>)"
       "length hills = 30" "length ms = 20"
    by blast
  from scatter_rotation_range[OF sample_unit_draws c(1)] obtain new where
    n: "entities sample_world @ hills @ ms = entities sample_world @ new"
       "\<forall>e \<in> set new.
         (\<exists>j. \<bar>j\<bar> \<le> pi / 8 \<and> rotation e = pi / 4 + j) \<and>
         pi / 8 \<le> rotation e \<and> rotation e \<le> 3 * pi / 8"
    by auto
  from n(1) have "new = hills @ ms" by simp
  with c(2,3) have l: "length new = 50" by simp
  have "entities (world_of (Completed \<lparr>entities = entities sample_world @ hills @ ms, random = g'\<rparr>)) =
          entities sample_world @ new"
    using n(1) by simp
  with c(1) n(2) l sample_unit_draws show ?thesis by blast
qed

text \<open>
  Claim C10. After the hill pass, when the sampler returns for the bare mesh, the callback
  completes having added exactly 20 mountains after the hills. Each mountain's position is
  one that \<open>randomPosOver\<close> returned for the mesh named \<open>TERRAIN_BARE\<close> with spread 20000.
  The mountain assignment, component by component, is the same function of the entity and
  of the draws as the hill assignment with \<open>scale.set\<close>: X and Z scale \<open>0.8 + r / 5\<close>,
  Y scale \<open>0.5 + r / 2\<close>, rotation \<open>pi / 4 + (r - 0.5) * pi / 4\<close>, on four consecutive draws.
\<close>

theorem mountains_scatter:
  assumes "find (\<lambda>mesh. name mesh = TERRAIN_GRASS E) flats = Some grass"
      and "hill_loop E grass 0 w = Some w1"
      and "find (\<lambda>mesh. name mesh = TERRAIN_BARE E) flats = Some bare"
      and "sampler_returns E bare (stream (random w))"
  shows "\<exists>ms g'. on_map_loaded E flats w =
              Some (Completed \<lparr>entities = entities w1 @ ms, random = g'\<rparr>) \<and>
           length ms = 20 \<and>
           (\<forall>m \<in> set ms.
              (\<exists>p0 g k. stream g = stream (random w) \<and>
                         randomPosOver E bare p0 20000 g = Some (position m, k)) \<and>
              (\<exists>n. scatter_transformed (stream (random w)) n m)) \<and>
           mountain_transform = hill_transform \<and>
           (\<forall>e g. scatter_transformed (stream g) (cursor g) (fst (hill_transform e g)) \<and>
                   scatter_transformed (stream g) (cursor g) (fst (mountain_transform e g)))"
proof -
  from hill_loop_Some[OF assms(2)] have s: "stream (random w1) = stream (random w)" by auto
  then have "sampler_returns E bare (stream (random w1))" using assms(4) by simp
  from mountain_loop_scatter[OF this] obtain ms g2 where
    m: "mountain_loop E bare 0 w1 = Some \<lparr>entities = entities w1 @ ms, random = g2\<rparr>"
       "length ms = 20"
       "\<forall>m \<in> set ms. placed_by E bare (stream (random w1)) m"
    by blast
  have o: "on_map_loaded E flats w = Some (Completed \<lparr>entities = entities w1 @ ms, random = g2\<rparr>)"
    using assms(1,2,3) m(1) by (simp add: on_map_loaded_def assertIsDefined_def)
  have p: "\<forall>m \<in> set ms.
              (\<exists>p0 g k. stream g = stream (random w) \<and>
                         randomPosOver E bare p0 20000 g = Some (position m, k)) \<and>
              (\<exists>n. scatter_transformed (stream (random w)) n m)"
    using m(3) s by (simp add: placed_by_def)
  have t: "\<forall>e g. scatter_transformed (stream g) (cursor g) (fst (hill_transform e g)) \<and>
                   scatter_transformed (stream g) (cursor g) (fst (mountain_transform e g))"
    by (simp add: hill_transform_eq mountain_transform_eq scatter_transformed_def)
  from o m(2) p t transforms_agree show ?thesis by blast
qed

text \<open>The sample environment: the hill pass returns, and 20 mountains follow.\<close>

theorem mountains_scatter_witness:
  "\<exists>w1 ms g'.
      find (\<lambda>mesh. name mesh = TERRAIN_GRASS sample_externals) [sample_grass, sample_bare] = Some sample_grass \<and>
      hill_loop sample_externals sample_grass 0 sample_world = Some w1 \<and>
      find (\<lambda>mesh. name mesh = TERRAIN_BARE sample_externals) [sample_grass, sample_bare] = Some sample_bare \<and>
      sampler_returns sample_externals sample_bare (stream (random sample_world)) \<and>
      on_map_loaded sample_externals [sample_grass, sample_bare] sample_world =
        Some (Completed \<lparr>entities = entities w1 @ ms, random = g'\<rparr>) \<and>
      length ms = 20 \<and> mountain_transform = hill_transform"
proof -
  from hill_loop_returns[OF sample_sampler_returns] obtain w1 where
    d: "hill_loop sample_externals sample_grass 0 sample_world = Some w1" by blast
  from mountains_scatter[OF sample_finds(1) d sample_finds(2) sample_sampler_returns]
  obtain ms g' where "on_map_loaded sample_externals [sample_grass, sample_bare] sample_world =
        Some (Completed \<lparr>entities = entities w1 @ ms, random = g'\<rparr>)" "length ms = 20"
      "mountain_transform = hill_transform"
    by blast
  with d sample_finds sample_sampler_returns show ?thesis by blast
qed

section \<open>Properties of the field populator\<close>

text \<open>The probability mass of prefixes, and the walk in terms of it.\<close>

lemma mass_simps [simp]:
  "mass [] = 0" "mass (v # vs) = probability v + mass vs"
  by (simp_all add: mass_def)

lemma mass_take_Suc:
  "i < length vs \<Longrightarrow> mass (take (Suc i) vs) = mass (take i vs) + probability (vs ! i)"
  by (simp add: mass_def take_Suc_conv_app_nth)

lemma mass_nonneg: "\<forall>v \<in> set vs. 0 \<le> probability v \<Longrightarrow> 0 \<le> mass vs"
  by (induction vs) auto

lemma mass_take_mono:
  assumes "\<forall>v \<in> set vs. 0 \<le> probability v" "j \<le> i"
  shows "mass (take j vs) \<le> mass (take i vs)"
proof -
  have "take i vs = take j vs @ take (i - j) (drop j vs)"
    using assms(2) by (simp flip: take_add)
  moreover have "0 \<le> mass (take (i - j) (drop j vs))"
  proof (rule mass_nonneg, rule ballI)
    fix v assume "v \<in> set (take (i - j) (drop j vs))"
    then have "v \<in> set vs" by (auto dest!: in_set_takeD in_set_dropD)
    with assms(1) show "0 \<le> probability v" by blast
  qed
  ultimately show ?thesis by (simp add: mass_def)
qed

lemma selectVariation_first:
  "selectVariation r acc k vs = Some i \<longleftrightarrow>
     k \<le> i \<and> i - k < length vs \<and> r < acc + mass (take (Suc (i - k)) vs) \<and>
     (\<forall>j < i - k. acc + mass (take (Suc j) vs) \<le> r)"
proof (induction vs arbitrary: acc k)
  case Nil
  then show ?case by simp
next
  case (Cons v vs)
  show ?case
  proof (cases "r < acc + probability v")
    case True
    have "(\<forall>j<i - k. acc + mass (take (Suc j) (v # vs)) \<le> r) \<Longrightarrow> i - k = 0"
    proof (rule ccontr)
      assume a: "\<forall>j<i - k. acc + mass (take (Suc j) (v # vs)) \<le> r" and "i - k \<noteq> 0"
      then have "acc + mass (take (Suc 0) (v # vs)) \<le> r" by blast
      with True show False by simp
    qed
    with True show ?thesis by auto
  next
    case False
    have "selectVariation r acc k (v # vs) = selectVariation r (acc + probability v) (Suc k) vs"
      using False by simp
    also have "\<dots> = Some i \<longleftrightarrow>
        Suc k \<le> i \<and> i - Suc k < length vs \<and>
        r < acc + probability v + mass (take (Suc (i - Suc k)) vs) \<and>
        (\<forall>j < i - Suc k. acc + probability v + mass (take (Suc j) vs) \<le> r)"
      by (rule Cons.IH)
    also have "\<dots> \<longleftrightarrow> k \<le> i \<and> i - k < length (v # vs) \<and>
        r < acc + mass (take (Suc (i - k)) (v # vs)) \<and>
        (\<forall>j < i - k. acc + mass (take (Suc j) (v # vs)) \<le> r)" (is "?L \<longleftrightarrow> ?R")
    proof
      assume l: ?L
      define d where "d = i - Suc k"
      from l have "Suc k \<le> i" by blast
      then have d: "i - k = Suc d" "i - Suc k = d" unfolding d_def by arith+
      have "\<forall>j < Suc d. acc + mass (take (Suc j) (v # vs)) \<le> r"
      proof (intro allI impI)
        fix j assume "j < Suc d"
        show "acc + mass (take (Suc j) (v # vs)) \<le> r"
        proof (cases j)
          case 0
          with False show ?thesis by simp
        next
          case (Suc j')
          with \<open>j < Suc d\<close> l d show ?thesis by (simp add: add.assoc)
        qed
      qed
      with l d show ?R by (simp add: add.assoc)
    next
      assume r: ?R
      have "i - k \<noteq> 0"
      proof
        assume "i - k = 0"
        with r have "r < acc + probability v" by simp
        with False show False by simp
      qed
      define d where "d = i - Suc k"
      from \<open>i - k \<noteq> 0\<close> have d: "i - k = Suc d" "i - Suc k = d" "Suc k \<le> i"
        unfolding d_def by arith+
      have "\<forall>j < d. acc + probability v + mass (take (Suc j) vs) \<le> r"
      proof (intro allI impI)
        fix j assume "j < d"
        then have "Suc j < i - k" using d by simp
        with r have "acc + mass (take (Suc (Suc j)) (v # vs)) \<le> r" by blast
        then show "acc + probability v + mass (take (Suc j) vs) \<le> r" by (simp add: add.assoc)
      qed
      with r d show ?L by (simp add: add.assoc)
    qed
    finally show ?thesis .
  qed
qed

lemma selectVariation_None:
  "selectVariation r acc k vs = None \<longleftrightarrow> (\<forall>j < length vs. acc + mass (take (Suc j) vs) \<le> r)"
proof (induction vs arbitrary: acc k)
  case Nil
  then show ?case by simp
next
  case (Cons v vs)
  show ?case
  proof (cases "r < acc + probability v")
    case True
    then have "\<not> (\<forall>j < length (v # vs). acc + mass (take (Suc j) (v # vs)) \<le> r)"
      by (auto intro!: exI[of _ 0])
    with True show ?thesis by simp
  next
    case False
    have "(\<forall>j < length (v # vs). acc + mass (take (Suc j) (v # vs)) \<le> r) \<longleftrightarrow>
          (\<forall>j < length vs. acc + probability v + mass (take (Suc j) vs) \<le> r)" (is "?L \<longleftrightarrow> ?R")
    proof
      assume l: ?L
      show ?R
      proof (intro allI impI)
        fix j assume "j < length vs"
        then have "Suc j < length (v # vs)" by simp
        with l have "acc + mass (take (Suc (Suc j)) (v # vs)) \<le> r" by blast
        then show "acc + probability v + mass (take (Suc j) vs) \<le> r" by (simp add: add.assoc)
      qed
    next
      assume r: ?R
      show ?L
      proof (intro allI impI)
        fix j assume j: "j < length (v # vs)"
        show "acc + mass (take (Suc j) (v # vs)) \<le> r"
        proof (cases j)
          case 0
          with False show ?thesis by simp
        next
          case (Suc j')
          with j r show ?thesis by (simp add: add.assoc)
        qed
      qed
    qed
    with False Cons.IH[of "acc + probability v" "Suc k"] show ?thesis by simp
  qed
qed

lemma selectVariation_interval:
  assumes "\<forall>v \<in> set vs. 0 \<le> probability v" "0 \<le> r"
  shows "selectVariation r 0 0 vs = Some i \<longleftrightarrow>
           i < length vs \<and> mass (take i vs) \<le> r \<and> r < mass (take i vs) + probability (vs ! i)"
proof -
  have "selectVariation r 0 0 vs = Some i \<longleftrightarrow>
          i < length vs \<and> r < mass (take (Suc i) vs) \<and> (\<forall>j < i. mass (take (Suc j) vs) \<le> r)"
    using selectVariation_first[of r 0 0 vs i] by simp
  also have "\<dots> \<longleftrightarrow> i < length vs \<and> mass (take i vs) \<le> r \<and> r < mass (take i vs) + probability (vs ! i)"
    (is "?L \<longleftrightarrow> ?R")
  proof
    assume l: ?L
    have "mass (take i vs) \<le> r"
    proof (cases i)
      case 0
      with assms(2) show ?thesis by simp
    next
      case (Suc i')
      with l show ?thesis by simp
    qed
    with l show ?R using mass_take_Suc[of i vs] by auto
  next
    assume r: ?R
    have "\<forall>j < i. mass (take (Suc j) vs) \<le> r"
    proof (intro allI impI)
      fix j assume "j < i"
      then have "mass (take (Suc j) vs) \<le> mass (take i vs)"
        by (intro mass_take_mono[OF assms(1)]) simp
      with r show "mass (take (Suc j) vs) \<le> r" by simp
    qed
    with r show ?L using mass_take_Suc[of i vs] by auto
  qed
  finally show ?thesis .
qed

lemma selectVariation_empty:
  assumes "\<forall>v \<in> set vs. 0 \<le> probability v"
  shows "selectVariation r 0 0 vs = None \<longleftrightarrow> vs = [] \<or> mass vs \<le> r"
proof -
  have "selectVariation r 0 0 vs = None \<longleftrightarrow> (\<forall>j < length vs. mass (take (Suc j) vs) \<le> r)"
    using selectVariation_None[of r 0 0 vs] by simp
  also have "\<dots> \<longleftrightarrow> vs = [] \<or> mass vs \<le> r" (is "?L \<longleftrightarrow> ?R")
  proof
    assume l: ?L
    show ?R
    proof (cases vs rule: rev_cases)
      case Nil
      then show ?thesis by simp
    next
      case (snoc ys y)
      then have "length ys < length vs" by simp
      with l have "mass (take (Suc (length ys)) vs) \<le> r" by blast
      with snoc show ?thesis by simp
    qed
  next
    assume r: ?R
    show ?L
    proof (intro allI impI)
      fix j assume j: "j < length vs"
      then have "vs \<noteq> []" by auto
      with r have "mass vs \<le> r" by simp
      moreover have "mass (take (Suc j) vs) \<le> mass (take (length vs) vs)"
        using j by (intro mass_take_mono[OF assms]) simp
      ultimately show "mass (take (Suc j) vs) \<le> r" by simp
    qed
  qed
  finally show ?thesis .
qed

lemma populateCell_empty:
  assumes "selectVariation (next_draw g) 0 0 (cellVariations cfg) = None"
  shows "populateCell cfg centre blank c g = (None, g\<lparr>cursor := cursor g + 1\<rparr>)"
  using assms by (simp add: populateCell_def Math_random_def next_draw_def)

lemma populateCell_selected:
  assumes "selectVariation (next_draw g) 0 0 (cellVariations cfg) = Some i"
  shows "populateCell cfg centre blank c g =
     (Some \<lparr>instanceModel = model (cellVariations cfg ! i),
            placement = blank\<lparr>position := (position blank)
                 \<lparr>vx := fst (centre c) + (stream g (cursor g + 1) - 1 / 2) * (jitter (cellVariations cfg ! i) * cellSize cfg),
                  vz := snd (centre c) + (stream g (cursor g + 2) - 1 / 2) * (jitter (cellVariations cfg ! i) * cellSize cfg)\<rparr>,
               rotation := (if randomRotation (cellVariations cfg ! i) then 2 * pi * stream g (cursor g + 3) else rotation blank)\<rparr>\<rparr>,
      g\<lparr>cursor := cursor g + (if randomRotation (cellVariations cfg ! i) then 4 else 3)\<rparr>)"
  using assms
  by (simp add: populateCell_def Math_random_def next_draw_def Let_def split_beta eval_nat_numeral)

lemma unit_draws_next: "unit_draws g \<Longrightarrow> 0 \<le> next_draw g \<and> next_draw g < 1"
  by (simp add: unit_draws_def next_draw_def)

text \<open>
  Claim C1. For a cell, with \<open>r\<close> the draw the populator makes first, non-negative
  probabilities and draws in the unit interval: the variation selected is the first one in
  declaration order whose cumulative probability boundary exceeds \<open>r\<close>; variation \<open>i\<close> owns the
  half-open interval from the mass of the variations before it to that mass plus its own
  probability; the instance placed carries the model of the selected variation; and the
  cell stays empty exactly when \<open>r\<close> is at or past the total probability mass.
\<close>

theorem cell_variation_selection:
  assumes "\<forall>v \<in> set (cellVariations cfg). 0 \<le> probability v"
      and "unit_draws g"
  shows "(selectVariation (next_draw g) 0 0 (cellVariations cfg) = Some i \<longleftrightarrow>
            i < length (cellVariations cfg) \<and>
            next_draw g < mass (take (Suc i) (cellVariations cfg)) \<and>
            (\<forall>j < i. mass (take (Suc j) (cellVariations cfg)) \<le> next_draw g)) \<and>
         (selectVariation (next_draw g) 0 0 (cellVariations cfg) = Some i \<longleftrightarrow>
            i < length (cellVariations cfg) \<and>
            mass (take i (cellVariations cfg)) \<le> next_draw g \<and>
            next_draw g < mass (take i (cellVariations cfg)) + probability (cellVariations cfg ! i)) \<and>
         (selectVariation (next_draw g) 0 0 (cellVariations cfg) = Some i \<longrightarrow>
            (\<exists>e. fst (populateCell cfg centre blank c g) =
                   Some \<lparr>instanceModel = model (cellVariations cfg ! i), placement = e\<rparr>)) \<and>
         (fst (populateCell cfg centre blank c g) = None \<longleftrightarrow> mass (cellVariations cfg) \<le> next_draw g)"
proof -
  from unit_draws_next[OF assms(2)] have r: "0 \<le> next_draw g" by simp
  have a: "selectVariation (next_draw g) 0 0 (cellVariations cfg) = Some i \<longleftrightarrow>
            i < length (cellVariations cfg) \<and>
            next_draw g < mass (take (Suc i) (cellVariations cfg)) \<and>
            (\<forall>j < i. mass (take (Suc j) (cellVariations cfg)) \<le> next_draw g)"
    using selectVariation_first[of "next_draw g" 0 0 "cellVariations cfg" i] by simp
  have b: "selectVariation (next_draw g) 0 0 (cellVariations cfg) = Some i \<longleftrightarrow>
            i < length (cellVariations cfg) \<and>
            mass (take i (cellVariations cfg)) \<le> next_draw g \<and>
            next_draw g < mass (take i (cellVariations cfg)) + probability (cellVariations cfg ! i)"
    by (rule selectVariation_interval[OF assms(1) r])
  have c: "selectVariation (next_draw g) 0 0 (cellVariations cfg) = Some i \<longrightarrow>
            (\<exists>e. fst (populateCell cfg centre blank c g) =
                   Some \<lparr>instanceModel = model (cellVariations cfg ! i), placement = e\<rparr>)"
    by (simp add: populateCell_selected)
  have "fst (populateCell cfg centre blank c g) = None \<longleftrightarrow>
          selectVariation (next_draw g) 0 0 (cellVariations cfg) = None"
  proof (cases "selectVariation (next_draw g) 0 0 (cellVariations cfg)")
    case None
    then show ?thesis by (simp add: populateCell_empty)
  next
    case (Some k)
    then show ?thesis by (simp add: populateCell_selected)
  qed
  also have "\<dots> \<longleftrightarrow> cellVariations cfg = [] \<or> mass (cellVariations cfg) \<le> next_draw g"
    by (rule selectVariation_empty[OF assms(1)])
  also have "\<dots> \<longleftrightarrow> mass (cellVariations cfg) \<le> next_draw g"
    using r by auto
  finally have d: "fst (populateCell cfg centre blank c g) = None \<longleftrightarrow>
     mass (cellVariations cfg) \<le> next_draw g" .
  from a b c d show ?thesis by blast
qed

lemma sample_settings_simps:
  "cellVariations sample_settings =
     [\<lparr>probability = 0.4, model = ''assets/farm01.gltf'', jitter = 0.9, randomRotation = True\<rparr>,
      \<lparr>probability = 0.25, model = ''lib:cropGreen'', jitter = 1.2, randomRotation = False\<rparr>]"
  "tilesInField sample_settings = 7" "cellsInTile sample_settings = 2"
  "tileLength sample_settings = 2500"
  by (simp_all add: sample_settings_def fieldOptions_def)

lemma sample_rng_simps:
  "unit_draws sample_rng" "next_draw sample_rng = 1 / 2"
  by (simp_all add: sample_rng_def unit_draws_def next_draw_def)

lemma sample_settings_nonneg: "\<forall>v \<in> set (cellVariations sample_settings). 0 \<le> probability v"
  by (simp add: sample_settings_simps)

text \<open>
  The shipped settings and a draw of one half: the second variation, which owns the
  interval from 0.4 to 0.65, is selected.
\<close>

theorem cell_variation_selection_witness:
  "unit_draws sample_rng \<and> next_draw sample_rng = 1 / 2 \<and>
   selectVariation (next_draw sample_rng) 0 0 (cellVariations sample_settings) = Some 1 \<and>
   mass (take 1 (cellVariations sample_settings)) = 0.4 \<and>
   probability (cellVariations sample_settings ! 1) = 0.25 \<and>
   (\<exists>e. fst (populateCell sample_settings sample_centre sample_entity ((0, 0), (0, 0)) sample_rng) =
          Some \<lparr>instanceModel = ''lib:cropGreen'', placement = e\<rparr>)"
proof -
  have s: "selectVariation (next_draw sample_rng) 0 0 (cellVariations sample_settings) = Some 1"
    by (simp add: sample_settings_simps sample_rng_simps)
  have m: "mass (take 1 (cellVariations sample_settings)) = 0.4"
    "probability (cellVariations sample_settings ! 1) = 0.25"
    "model (cellVariations sample_settings ! 1) = ''lib:cropGreen''"
    by (simp_all add: sample_settings_simps)
  from cell_variation_selection[OF sample_settings_nonneg sample_rng_simps(1),
      where i = 1 and centre = sample_centre and blank = sample_entity and c = "((0, 0), (0, 0))"] s
  have "\<exists>e. fst (populateCell sample_settings sample_centre sample_entity ((0, 0), (0, 0)) sample_rng) =
          Some \<lparr>instanceModel = model (cellVariations sample_settings ! 1), placement = e\<rparr>"
    by blast
  then have e: "\<exists>e. fst (populateCell sample_settings sample_centre sample_entity ((0, 0), (0, 0)) sample_rng) =
          Some \<lparr>instanceModel = ''lib:cropGreen'', placement = e\<rparr>"
    unfolding m(3) .
  from sample_rng_simps s m(1,2) e show ?thesis by blast
qed

lemma jitter_offset_bound:
  fixes u a :: real
  assumes "0 \<le> u" "u < 1" "0 \<le> a"
  shows "\<bar>(u - 1 / 2) * a\<bar> \<le> a / 2"
proof -
  have "\<bar>(u - 1 / 2) * a\<bar> = \<bar>u - 1 / 2\<bar> * a" using assms(3) by (simp add: abs_mult)
  also have "\<dots> \<le> (1 / 2) * a"
  proof (rule mult_right_mono)
    show "\<bar>u - 1 / 2\<bar> \<le> 1 / 2" using assms(1,2) by (auto simp: abs_if)
    show "0 \<le> a" by (rule assms(3))
  qed
  finally show ?thesis by simp
qed

text \<open>
  Claim C5. In a cell where a variation is selected, the populator places an instance whose
  offset from the centre of the cell has, on each horizontal axis, magnitude at most
  \<open>jitter * cellSize / 2\<close>, with \<open>cellSize = tileLength / cellsInTile\<close> and the jitter factor
  of the selected variation, which may exceed 1.
\<close>

theorem cell_jitter_bound:
  assumes "unit_draws g"
      and "selectVariation (next_draw g) 0 0 (cellVariations cfg) = Some i"
      and "0 \<le> jitter (cellVariations cfg ! i)"
      and "0 < tileLength cfg" and "1 \<le> cellsInTile cfg"
  shows "\<exists>inst. fst (populateCell cfg centre blank c g) = Some inst \<and>
           instanceModel inst = model (cellVariations cfg ! i) \<and>
           \<bar>vx (position (placement inst)) - fst (centre c)\<bar>
              \<le> jitter (cellVariations cfg ! i) * (tileLength cfg / real (cellsInTile cfg)) / 2 \<and>
           \<bar>vz (position (placement inst)) - snd (centre c)\<bar>
              \<le> jitter (cellVariations cfg ! i) * (tileLength cfg / real (cellsInTile cfg)) / 2"
proof -
  let ?v = "cellVariations cfg ! i"
  let ?a = "jitter ?v * cellSize cfg"
  have cs: "0 \<le> cellSize cfg" using assms(4,5) by (simp add: cellSize_def)
  with assms(3) have a: "0 \<le> ?a" by simp
  from assms(1) have u: "0 \<le> stream g (cursor g + 1)" "stream g (cursor g + 1) < 1"
     "0 \<le> stream g (cursor g + 2)" "stream g (cursor g + 2) < 1"
    by (simp_all add: unit_draws_def)
  have x: "\<bar>(stream g (cursor g + 1) - 1 / 2) * ?a\<bar> \<le> ?a / 2"
    by (rule jitter_offset_bound[OF u(1,2) a])
  have z: "\<bar>(stream g (cursor g + 2) - 1 / 2) * ?a\<bar> \<le> ?a / 2"
    by (rule jitter_offset_bound[OF u(3,4) a])
  show ?thesis
    using x z by (simp add: populateCell_selected[OF assms(2)] cellSize_def)
qed

text \<open>The shipped settings: the variation with jitter 1.2 is selected, the bound is 750.\<close>

theorem cell_jitter_bound_witness:
  "unit_draws sample_rng \<and>
   selectVariation (next_draw sample_rng) 0 0 (cellVariations sample_settings) = Some 1 \<and>
   jitter (cellVariations sample_settings ! 1) = 1.2 \<and>
   tileLength sample_settings = 2500 \<and> cellsInTile sample_settings = 2 \<and>
   (\<exists>inst. fst (populateCell sample_settings sample_centre sample_entity ((0, 0), (0, 0)) sample_rng) = Some inst \<and>
      \<bar>vx (position (placement inst)) - fst (sample_centre ((0, 0), (0, 0)))\<bar> \<le> 1.2 * (2500 / 2) / 2 \<and>
      \<bar>vz (position (placement inst)) - snd (sample_centre ((0, 0), (0, 0)))\<bar> \<le> 1.2 * (2500 / 2) / 2)"
proof -
  have s: "selectVariation (next_draw sample_rng) 0 0 (cellVariations sample_settings) = Some 1"
    by (simp add: sample_settings_simps sample_rng_simps)
  have j: "jitter (cellVariations sample_settings ! 1) = 1.2"
    by (simp add: sample_settings_simps)
  have "\<exists>inst. fst (populateCell sample_settings sample_centre sample_entity ((0, 0), (0, 0)) sample_rng) = Some inst \<and>
      instanceModel inst = model (cellVariations sample_settings ! 1) \<and>
      \<bar>vx (position (placement inst)) - fst (sample_centre ((0, 0), (0, 0)))\<bar>
         \<le> jitter (cellVariations sample_settings ! 1) * (tileLength sample_settings / real (cellsInTile sample_settings)) / 2 \<and>
      \<bar>vz (position (placement inst)) - snd (sample_centre ((0, 0), (0, 0)))\<bar>
         \<le> jitter (cellVariations sample_settings ! 1) * (tileLength sample_settings / real (cellsInTile sample_settings)) / 2"
    by (rule cell_jitter_bound[OF sample_rng_simps(1) s])
       (simp_all add: sample_settings_simps)
  then obtain inst where
    i: "fst (populateCell sample_settings sample_centre sample_entity ((0, 0), (0, 0)) sample_rng) = Some inst"
       "\<bar>vx (position (placement inst)) - fst (sample_centre ((0, 0), (0, 0)))\<bar>
         \<le> jitter (cellVariations sample_settings ! 1) * (tileLength sample_settings / real (cellsInTile sample_settings)) / 2"
       "\<bar>vz (position (placement inst)) - snd (sample_centre ((0, 0), (0, 0)))\<bar>
         \<le> jitter (cellVariations sample_settings ! 1) * (tileLength sample_settings / real (cellsInTile sample_settings)) / 2"
    by blast
  have b: "jitter (cellVariations sample_settings ! 1) * (tileLength sample_settings / real (cellsInTile sample_settings)) / 2
       = 1.2 * (2500 / 2) / 2"
    by (simp add: sample_settings_simps)
  from i have e: "\<exists>inst. fst (populateCell sample_settings sample_centre sample_entity ((0, 0), (0, 0)) sample_rng) = Some inst \<and>
      \<bar>vx (position (placement inst)) - fst (sample_centre ((0, 0), (0, 0)))\<bar> \<le> 1.2 * (2500 / 2) / 2 \<and>
      \<bar>vz (position (placement inst)) - snd (sample_centre ((0, 0), (0, 0)))\<bar> \<le> 1.2 * (2500 / 2) / 2"
    unfolding b by blast
  from sample_rng_simps(1) s j sample_settings_simps(3,4) e show ?thesis by blast
qed

lemma fieldCells_length: "length (fieldCells cfg) = (tilesInField cfg * cellsInTile cfg)\<^sup>2"
  by (simp add: fieldCells_def power2_eq_square)

lemma fieldCells_distinct: "distinct (fieldCells cfg)"
  unfolding fieldCells_def by (intro distinct_product) simp_all

lemma populateCell_stream: "stream (snd (populateCell cfg centre blank c g)) = stream g"
proof (cases "selectVariation (next_draw g) 0 0 (cellVariations cfg)")
  case None
  then show ?thesis by (simp add: populateCell_empty)
next
  case (Some i)
  then show ?thesis by (simp add: populateCell_selected)
qed

lemma populateCells_length_le:
  "length (fst (populateCells cfg centre blank cs g)) \<le> length cs"
proof (induction cs arbitrary: g)
  case Nil
  then show ?case by simp
next
  case (Cons c cs)
  obtain inst g1 where p: "populateCell cfg centre blank c g = (inst, g1)" by (cases "populateCell cfg centre blank c g")
  obtain insts g2 where q: "populateCells cfg centre blank cs g1 = (insts, g2)" by (cases "populateCells cfg centre blank cs g1")
  from Cons.IH[of g1] q have "length insts \<le> length cs" by simp
  with p q show ?case by (simp split: option.splits)
qed

lemma populateCells_sure:
  assumes "cellVariations cfg = [v]" "probability v = 1" "unit_draws g"
  shows "length (fst (populateCells cfg centre blank cs g)) = length cs"
  using assms(3)
proof (induction cs arbitrary: g)
  case Nil
  then show ?case by simp
next
  case (Cons c cs)
  from unit_draws_next[OF Cons.prems] have "next_draw g < 1" by simp
  then have s: "selectVariation (next_draw g) 0 0 (cellVariations cfg) = Some 0"
    using assms(1,2) by simp
  obtain inst g1 where p: "populateCell cfg centre blank c g = (inst, g1)" by (cases "populateCell cfg centre blank c g")
  obtain insts g2 where q: "populateCells cfg centre blank cs g1 = (insts, g2)" by (cases "populateCells cfg centre blank cs g1")
  from p populateCell_selected[OF s, of centre blank c] obtain i where i: "inst = Some i" by auto
  from populateCell_stream[of cfg centre blank c g] p have "stream g1 = stream g" by simp
  with Cons.prems have "unit_draws g1" by (simp add: unit_draws_def)
  from Cons.IH[OF this] q have "length insts = length cs" by simp
  with p q i show ?case by simp
qed

text \<open>
  Claim C2. The populator enumerates \<open>(tilesInField * cellsInTile)\<^sup>2\<close> cells, each once, and
  places at most one instance per cell. With 7 tiles of 2 cells along each axis there are
  196 cells, as in the shipped settings, and a single variation of probability 1 gives
  exactly 196 instances.
\<close>

theorem field_cell_count:
  "length (fieldCells cfg) = (tilesInField cfg * cellsInTile cfg)\<^sup>2 \<and>
   distinct (fieldCells cfg) \<and>
   length (fst (populateField cfg centre blank g)) \<le> (tilesInField cfg * cellsInTile cfg)\<^sup>2 \<and>
   (tilesInField cfg = 7 \<and> cellsInTile cfg = 2 \<longrightarrow>
      length (fieldCells cfg) = 196 \<and>
      (cellVariations cfg = [v] \<and> probability v = 1 \<and> unit_draws g \<longrightarrow>
         length (fst (populateField cfg centre blank g)) = 196)) \<and>
   length (fieldCells (fieldOptions others)) = 196"
proof -
  have a: "length (fieldCells cfg) = (tilesInField cfg * cellsInTile cfg)\<^sup>2"
    by (rule fieldCells_length)
  have b: "length (fst (populateField cfg centre blank g)) \<le> (tilesInField cfg * cellsInTile cfg)\<^sup>2"
    unfolding populateField_def a[symmetric] by (rule populateCells_length_le)
  have c: "length (fieldCells cfg) = 196" if "tilesInField cfg = 7 \<and> cellsInTile cfg = 2"
    using that by (simp add: fieldCells_length)
  have d: "length (fst (populateField cfg centre blank g)) = 196"
    if "tilesInField cfg = 7 \<and> cellsInTile cfg = 2" "cellVariations cfg = [v] \<and> probability v = 1 \<and> unit_draws g"
    using that(2) c[OF that(1)] by (simp add: populateField_def populateCells_sure)
  have e: "length (fieldCells (fieldOptions others)) = 196"
    by (simp add: fieldCells_length fieldOptions_def)
  from a b c d e fieldCells_distinct show ?thesis by blast
qed

text \<open>The field whose single variation has probability 1.\<close>

theorem field_cell_count_witness:
  "tilesInField sure_settings = 7 \<and> cellsInTile sure_settings = 2 \<and>
   cellVariations sure_settings =
     [\<lparr>probability = 1.0, model = ''lib:cropGreen'', jitter = 1.2, randomRotation = False\<rparr>] \<and>
   unit_draws sample_rng \<and>
   length (fieldCells sure_settings) = 196 \<and>
   length (fst (populateField sure_settings sample_centre sample_entity sample_rng)) = 196"
proof -
  have a: "tilesInField sure_settings = 7 \<and> cellsInTile sure_settings = 2"
    by (simp add: sure_settings_def)
  have b: "cellVariations sure_settings =
     [\<lparr>probability = 1.0, model = ''lib:cropGreen'', jitter = 1.2, randomRotation = False\<rparr>]"
    by (simp add: sure_settings_def)
  have c: "probability \<lparr>probability = 1.0, model = ''lib:cropGreen'', jitter = 1.2, randomRotation = False\<rparr> = 1"
    by simp
  from field_cell_count[where cfg = sure_settings and g = sample_rng and centre = sample_centre
      and blank = sample_entity
      and v = "\<lparr>probability = 1.0, model = ''lib:cropGreen'', jitter = 1.2, randomRotation = False\<rparr>"]
    a b c sample_rng_simps(1)
  have "length (fieldCells sure_settings) = 196 \<and>
        length (fst (populateField sure_settings sample_centre sample_entity sample_rng)) = 196"
    by blast
  with a b sample_rng_simps(1) show ?thesis by blast
qed

section \<open>Properties of the surface sampler\<close>

















end
